theory Spec2Isabelle
  imports Complex_Main "HOL-Library.Word"
begin

section \<open>Lock-free latency statistics (stats.go)\<close>

text \<open>
  The development embeds \<^verbatim>\<open>src/stats/stats.go\<close>: the histogram snapshot \<^verbatim>\<open>Stats\<close> with
  \<^verbatim>\<open>Record\<close>, \<^verbatim>\<open>Reset\<close>, \<^verbatim>\<open>Copy\<close>, \<^verbatim>\<open>Combine\<close> and \<^verbatim>\<open>Percentiles\<close>, the parser
  \<^verbatim>\<open>ParsePercentiles\<close>, and the double buffer \<^verbatim>\<open>Trx\<close>.

  Conventions of the embedding.
  \<^item> \<^verbatim>\<open>uint64\<close>, \<^verbatim>\<open>uint16\<close> and \<^verbatim>\<open>byte\<close> are words: counters wrap as they do in Go.
  \<^item> \<^verbatim>\<open>int64\<close> durations are \<open>int\<close>: the code only compares and assigns them.
  \<^item> A slice is a list. An index out of range panics in Go; every operation returns
    \<open>None\<close> for a panic.
  \<^item> A \<^verbatim>\<open>float64\<close> is a value of \<open>f64\<close>: a real number or one of the special values.
    Finite arithmetic is exact real arithmetic; the rounding of IEEE doubles is not
    represented.
  \<^item> A method with a pointer receiver takes the receiver's value and returns the new one;
    two snapshots passed to one call are distinct objects. The rows of a snapshot share
    no storage and its \<^verbatim>\<open>Errors\<close> map is allocated, as \<^verbatim>\<open>NewStats\<close> makes them.
  \<^item> \<^verbatim>\<open>uint\<close> has 64 bits.
\<close>

subsection \<open>Floating-point values\<close>

datatype f64 = Fin real | PosInf | NegInf | NaN

text \<open>\<^verbatim>\<open>float64(d)\<close> for an integer.\<close>

definition f64_of_int :: "int \<Rightarrow> f64" where
  "f64_of_int d = Fin (of_int d)"

text \<open>Division of a float by a constant that is finite and positive.\<close>

definition fdiv_const :: "f64 \<Rightarrow> real \<Rightarrow> f64" where
  "fdiv_const x c = (case x of Fin r \<Rightarrow> Fin (r / c) | PosInf \<Rightarrow> PosInf | NegInf \<Rightarrow> NegInf | NaN \<Rightarrow> NaN)"

text \<open>\<^verbatim>\<open>math.Log\<close>: minus infinity at zero, not a number below zero.\<close>

definition Log :: "f64 \<Rightarrow> f64" where
  "Log x = (case x of
      Fin r \<Rightarrow> (if r < 0 then NaN else if r = 0 then NegInf else Fin (ln r))
    | PosInf \<Rightarrow> PosInf
    | NegInf \<Rightarrow> NaN
    | NaN \<Rightarrow> NaN)"

text \<open>The comparison \<^verbatim>\<open>x < y\<close>; every comparison with a NaN is false.\<close>

fun fless :: "f64 \<Rightarrow> f64 \<Rightarrow> bool" where
  "fless NaN y = False"
| "fless x NaN = False"
| "fless (Fin a) (Fin b) = (a < b)"
| "fless (Fin a) PosInf = True"
| "fless (Fin a) NegInf = False"
| "fless PosInf y = False"
| "fless NegInf NegInf = False"
| "fless NegInf y = True"




text \<open>
  The conversion \<^verbatim>\<open>uint(x)\<close> discards the fraction. Where the truncated value is not a
  \<^verbatim>\<open>uint\<close> the Go specification leaves the result to the implementation: the
  parameter \<open>cv\<close> is that platform conversion.
\<close>

definition uint_of_f64 :: "(f64 \<Rightarrow> 64 word) \<Rightarrow> f64 \<Rightarrow> 64 word" where
  "uint_of_f64 cv x = (case x of
      Fin r \<Rightarrow> (if - 1 < r \<and> r < 2 ^ 64 then word_of_nat (nat \<lfloor>r\<rfloor>) else cv x)
    | PosInf \<Rightarrow> cv x
    | NegInf \<Rightarrow> cv x
    | NaN \<Rightarrow> cv x)"

subsection \<open>Event types and the snapshot\<close>

type_synonym byte = "8 word"

definition nEventTypes :: nat where
  "nEventTypes = 4"

definition READ :: byte where "READ = 0"
definition WRITE :: byte where "WRITE = 1"
definition COMMIT :: byte where "COMMIT = 2"
definition TOTAL :: byte where "TOTAL = 3"

text \<open>
  The fields \<^verbatim>\<open>Min\<close> and \<^verbatim>\<open>Max\<close> are named \<open>MinT\<close> and \<open>MaxT\<close> here, \<^verbatim>\<open>N\<close> is \<open>NEv\<close>.
\<close>

record Stats =
  Buckets :: "64 word list list"
  MinT :: "int list"
  MaxT :: "int list"
  NEv :: "64 word list"
  Errors :: "16 word \<rightharpoonup> 64 word"

definition n_buckets :: nat where
  "n_buckets = 450"

definition base :: real where
  "base = 10.0"


definition logFactor :: real where
  "logFactor = 0.046051701859881"

definition NewStats :: Stats where
  "NewStats = \<lparr>
     Buckets = replicate nEventTypes (replicate n_buckets 0),
     MinT = replicate nEventTypes 0,
     MaxT = replicate nEventTypes 0,
     NEv = replicate nEventTypes 0,
     Errors = Map.empty \<rparr>"

text \<open>The shape \<^verbatim>\<open>NewStats\<close> allocates; no operation changes it.\<close>

definition shaped :: "Stats \<Rightarrow> bool" where
  "shaped s \<longleftrightarrow>
     length (Buckets s) = nEventTypes \<and>
     list_all (\<lambda>row. length row = n_buckets) (Buckets s) \<and>
     length (MinT s) = nEventTypes \<and>
     length (MaxT s) = nEventTypes \<and>
     length (NEv s) = nEventTypes"

subsection \<open>Record\<close>

text \<open>The first lines of \<^verbatim>\<open>Record\<close>: the bucket number of a duration.\<close>

definition bucket_raw :: "int \<Rightarrow> f64" where
  "bucket_raw d = fdiv_const (Log (fdiv_const (f64_of_int d) base)) logFactor"

definition bucket_number :: "(f64 \<Rightarrow> 64 word) \<Rightarrow> int \<Rightarrow> 64 word" where
  "bucket_number cv d =
     (let bucket = bucket_raw d;
          n = uint_of_f64 cv bucket + 1;
          n = (if fless bucket (Fin 0) then 0 else n);
          n = (if n > word_of_nat (n_buckets - 1) then word_of_nat (n_buckets - 1) else n)
      in n)"

text \<open>
  The block that \<^verbatim>\<open>Record\<close> runs for the event type and again for \<^verbatim>\<open>TOTAL\<close>:
  count the bucket, lower the minimum, raise the maximum, count the event.
\<close>

definition record_one :: "Stats \<Rightarrow> nat \<Rightarrow> nat \<Rightarrow> int \<Rightarrow> Stats option" where
  "record_one s t n d =
     (if t < length (Buckets s) \<and> n < length (Buckets s ! t) \<and>
         t < length (MinT s) \<and> t < length (MaxT s) \<and> t < length (NEv s)
      then
        let s1 = s\<lparr>Buckets := (Buckets s)[t := (Buckets s ! t)[n := Buckets s ! t ! n + 1]]\<rparr>;
            s2 = (if d < MinT s1 ! t \<or> NEv s1 ! t = 0 then s1\<lparr>MinT := (MinT s1)[t := d]\<rparr> else s1);
            s3 = (if d > MaxT s2 ! t then s2\<lparr>MaxT := (MaxT s2)[t := d]\<rparr> else s2)
        in Some (s3\<lparr>NEv := (NEv s3)[t := NEv s3 ! t + 1]\<rparr>)
      else None)"

definition Record :: "(f64 \<Rightarrow> 64 word) \<Rightarrow> Stats \<Rightarrow> byte \<Rightarrow> int \<Rightarrow> Stats option" where
  "Record cv s eventType d =
     (let n = unat (bucket_number cv d) in
      case record_one s (unat eventType) n d of
        None \<Rightarrow> None
      | Some s' \<Rightarrow> (if eventType \<noteq> TOTAL then record_one s' (unat TOTAL) n d else Some s'))"

subsection \<open>Reset\<close>

definition reset_type :: "Stats \<Rightarrow> nat \<Rightarrow> Stats option" where
  "reset_type s i =
     (if i < length (Buckets s) \<and> i < length (MinT s) \<and> i < length (MaxT s) \<and> i < length (NEv s)
      then Some (s\<lparr>
        Buckets := (Buckets s)[i := replicate (length (Buckets s ! i)) 0],
        MinT := (MinT s)[i := 0],
        MaxT := (MaxT s)[i := 0],
        NEv := (NEv s)[i := 0]\<rparr>)
      else None)"

text \<open>A loop over the event types whose body may panic.\<close>

fun for_types :: "(Stats \<Rightarrow> nat \<Rightarrow> Stats option) \<Rightarrow> nat list \<Rightarrow> Stats \<Rightarrow> Stats option" where
  "for_types body [] s = Some s"
| "for_types body (i # is) s = (case body s i of None \<Rightarrow> None | Some s' \<Rightarrow> for_types body is s')"

definition Reset :: "Stats \<Rightarrow> Stats option" where
  "Reset s =
     (case for_types reset_type [0..<nEventTypes] s of
        None \<Rightarrow> None
      | Some s' \<Rightarrow> Some (s'\<lparr>Errors := (\<lambda>k. case Errors s' k of None \<Rightarrow> None | Some v \<Rightarrow> Some 0)\<rparr>))"

subsection \<open>Copy\<close>

text \<open>The builtin \<^verbatim>\<open>copy(dst, src)\<close> copies as many elements as the shorter slice has.\<close>

definition copy_slice :: "'a list \<Rightarrow> 'a list \<Rightarrow> 'a list" where
  "copy_slice dst src = take (length dst) src @ drop (length src) dst"

definition copy_type :: "Stats \<Rightarrow> Stats \<Rightarrow> nat \<Rightarrow> Stats option" where
  "copy_type c s i =
     (if i < length (Buckets s) \<and> i < length (Buckets c) \<and>
         i < length (MinT s) \<and> i < length (MinT c) \<and>
         i < length (MaxT s) \<and> i < length (MaxT c) \<and>
         i < length (NEv s) \<and> i < length (NEv c)
      then Some (s\<lparr>
        Buckets := (Buckets s)[i := copy_slice (Buckets s ! i) (Buckets c ! i)],
        MinT := (MinT s)[i := MinT c ! i],
        MaxT := (MaxT s)[i := MaxT c ! i],
        NEv := (NEv s)[i := NEv c ! i]\<rparr>)
      else None)"

text \<open>\<^verbatim>\<open>s.Copy(c)\<close>; the last loop stores every entry of \<^verbatim>\<open>c.Errors\<close> into \<^verbatim>\<open>s.Errors\<close>.\<close>

definition Copy :: "Stats \<Rightarrow> Stats \<Rightarrow> Stats option" where
  "Copy s c =
     (case for_types (copy_type c) [0..<nEventTypes] s of
        None \<Rightarrow> None
      | Some s' \<Rightarrow> Some (s'\<lparr>Errors := Errors s' ++ Errors c\<rparr>))"

subsection \<open>Combine\<close>

text \<open>
  The inner loop \<^verbatim>\<open>for j := range s.Buckets[i] { s.Buckets[i][j] += c.Buckets[i][j] }\<close>
  reads \<^verbatim>\<open>c\<close> only when the row of \<^verbatim>\<open>s\<close> has an element.
\<close>

definition combine_row :: "Stats \<Rightarrow> nat \<Rightarrow> 64 word list \<Rightarrow> 64 word list option" where
  "combine_row c i srow =
     (if srow = [] then Some []
      else if i < length (Buckets c) \<and> length srow \<le> length (Buckets c ! i)
      then Some (map2 (+) srow (Buckets c ! i))
      else None)"

definition combine_type :: "Stats \<Rightarrow> Stats \<Rightarrow> nat \<Rightarrow> Stats option" where
  "combine_type c s i =
     (if i < length (Buckets s) then
        (case combine_row c i (Buckets s ! i) of
           None \<Rightarrow> None
         | Some row \<Rightarrow>
             (if i < length (MinT s) \<and> i < length (MinT c) \<and>
                 i < length (MaxT s) \<and> i < length (MaxT c) \<and>
                 i < length (NEv s) \<and> i < length (NEv c)
              then
                let s1 = s\<lparr>Buckets := (Buckets s)[i := row]\<rparr>;
                    s2 = (if MinT c ! i < MinT s1 ! i \<or> NEv s1 ! i = 0
                          then s1\<lparr>MinT := (MinT s1)[i := MinT c ! i]\<rparr> else s1);
                    s3 = (if MaxT c ! i > MaxT s2 ! i
                          then s2\<lparr>MaxT := (MaxT s2)[i := MaxT c ! i]\<rparr> else s2)
                in Some (s3\<lparr>NEv := (NEv s3)[i := NEv s3 ! i + NEv c ! i]\<rparr>)
              else None))
      else None)"

text \<open>A missing key of a Go map reads as zero.\<close>

definition tally :: "('k \<rightharpoonup> 64 word) \<Rightarrow> 'k \<Rightarrow> 64 word" where
  "tally m k = (case m k of None \<Rightarrow> 0 | Some v \<Rightarrow> v)"

definition Combine :: "Stats \<Rightarrow> Stats \<Rightarrow> Stats option" where
  "Combine s c =
     (case for_types (combine_type c) [0..<nEventTypes] s of
        None \<Rightarrow> None
      | Some s' \<Rightarrow> Some (s'\<lparr>Errors :=
          (\<lambda>k. case Errors c k of None \<Rightarrow> Errors s' k | Some v \<Rightarrow> Some (tally (Errors s') k + v))\<rparr>))"

subsection \<open>Percentiles\<close>









subsection \<open>ParsePercentiles\<close>

text \<open>
  \<^verbatim>\<open>strings.TrimSpace\<close> and \<^verbatim>\<open>strconv.ParseFloat\<close> belong to the Go library: they are the
  parameters \<open>trim\<close> and \<open>pf\<close>. The package variables \<^verbatim>\<open>DefaultPercentileNames\<close> and
  \<^verbatim>\<open>DefaultPercentiles\<close> are declared outside the file: they are the parameters \<open>dn\<close>
  and \<open>dp\<close>.
\<close>

datatype perror = InvalidPercentile string string | OutOfRange string f64

text \<open>\<^verbatim>\<open>strings.Split(s, ",")\<close> for a one-byte separator.\<close>

fun Split :: "string \<Rightarrow> char \<Rightarrow> string list" where
  "Split [] sep = [[]]"
| "Split (x # xs) sep =
     (if x = sep then [] # Split xs sep
      else (case Split xs sep of [] \<Rightarrow> [[x]] | w # ws \<Rightarrow> (x # w) # ws))"

definition TrimLeft :: "string \<Rightarrow> string \<Rightarrow> string" where
  "TrimLeft s cutset = dropWhile (\<lambda>ch. ch \<in> set cutset) s"

fun parse_all :: "(string \<Rightarrow> string) \<Rightarrow> (string \<Rightarrow> string + f64) \<Rightarrow> string list
    \<Rightarrow> string list \<Rightarrow> f64 list \<Rightarrow> perror + string list \<times> f64 list" where
  "parse_all trim pf [] s p = Inr (s, p)"
| "parse_all trim pf (raw # rest) s p =
     (let pStr = TrimLeft (trim raw) ''Pp'' in
      case pf pStr of
        Inl err \<Rightarrow> Inl (InvalidPercentile pStr err)
      | Inr f \<Rightarrow>
          (if fless f (Fin 0.0) \<or> fless (Fin 100.0) f then Inl (OutOfRange pStr f)
           else parse_all trim pf rest (s @ [''P'' @ pStr]) (p @ [f])))"

definition ParsePercentiles :: "(string \<Rightarrow> string) \<Rightarrow> (string \<Rightarrow> string + f64) \<Rightarrow> string list \<Rightarrow> f64 list
    \<Rightarrow> string \<Rightarrow> perror + string list \<times> f64 list" where
  "ParsePercentiles trim pf dn dp pCSV =
     (if trim pCSV = [] then Inr (dn, dp)
      else
        let all = Split pCSV (CHR '','') in
        if length all = 0 then Inr ([], [])
        else parse_all trim pf all [] [])"

subsection \<open>Trx\<close>

text \<open>
  The pointers \<^verbatim>\<open>a\<close> and \<^verbatim>\<open>b\<close> own one snapshot each (the fields \<open>trx_a\<close> and \<open>trx_b\<close>);
  the atomic pointer \<^verbatim>\<open>sp\<close> holds one of the two, so it is the name of a slot. The
  pointer that \<^verbatim>\<open>Swap\<close> returns is the name of a slot too: what it points to is read
  from the \<open>Trx\<close> with \<open>deref\<close>, at the time of reading.
\<close>

datatype slot = SlotA | SlotB

record Trx =
  Name :: string
  trx_a :: Stats
  trx_b :: Stats
  sp :: slot
  onA :: bool

definition NewTrx :: "string \<Rightarrow> Trx" where
  "NewTrx name = \<lparr> Name = name, trx_a = NewStats, trx_b = NewStats, sp = SlotA, onA = True \<rparr>"

definition deref :: "Trx \<Rightarrow> slot \<Rightarrow> Stats" where
  "deref t x = (case x of SlotA \<Rightarrow> trx_a t | SlotB \<Rightarrow> trx_b t)"

definition assign :: "Trx \<Rightarrow> slot \<Rightarrow> Stats \<Rightarrow> Trx" where
  "assign t x s = (case x of SlotA \<Rightarrow> t\<lparr>trx_a := s\<rparr> | SlotB \<Rightarrow> t\<lparr>trx_b := s\<rparr>)"

definition Trx_Record :: "(f64 \<Rightarrow> 64 word) \<Rightarrow> Trx \<Rightarrow> byte \<Rightarrow> int \<Rightarrow> Trx option" where
  "Trx_Record cv t eventType d =
     (case Record cv (deref t (sp t)) eventType d of
        None \<Rightarrow> None
      | Some s' \<Rightarrow> Some (assign t (sp t) s'))"

definition Trx_Error :: "Trx \<Rightarrow> 16 word \<Rightarrow> Trx" where
  "Trx_Error t n =
     (let s = deref t (sp t)
      in assign t (sp t) (s\<lparr>Errors := (Errors s)(n \<mapsto> tally (Errors s) n + 1)\<rparr>))"

definition Swap :: "Trx \<Rightarrow> (slot \<times> Trx) option" where
  "Swap t =
     (if onA t then
        (case Reset (trx_b t) of
           None \<Rightarrow> None
         | Some b' \<Rightarrow> Some (SlotA, t\<lparr>trx_b := b', sp := SlotB, onA := False\<rparr>))
      else
        (case Reset (trx_a t) of
           None \<Rightarrow> None
         | Some a' \<Rightarrow> Some (SlotB, t\<lparr>trx_a := a', sp := SlotA, onA := True\<rparr>)))"

subsection \<open>Sequences of calls\<close>

text \<open>A caller's sequence of \<^verbatim>\<open>Record\<close> calls on one snapshot, in order.\<close>

fun Records :: "(f64 \<Rightarrow> 64 word) \<Rightarrow> Stats \<Rightarrow> (byte \<times> int) list \<Rightarrow> Stats option" where
  "Records cv s [] = Some s"
| "Records cv s ((eventType, d) # evs) =
     (case Record cv s eventType d of None \<Rightarrow> None | Some s' \<Rightarrow> Records cv s' evs)"

text \<open>The same through a \<^verbatim>\<open>Trx\<close>.\<close>

fun Trx_Records :: "(f64 \<Rightarrow> 64 word) \<Rightarrow> Trx \<Rightarrow> (byte \<times> int) list \<Rightarrow> Trx option" where
  "Trx_Records cv t [] = Some t"
| "Trx_Records cv t ((eventType, d) # evs) =
     (case Trx_Record cv t eventType d of None \<Rightarrow> None | Some t' \<Rightarrow> Trx_Records cv t' evs)"

text \<open>A sequence of \<^verbatim>\<open>Record\<close> and \<^verbatim>\<open>Reset\<close> calls on one snapshot.\<close>

datatype call = CallRecord byte int | CallReset

fun apply_call :: "(f64 \<Rightarrow> 64 word) \<Rightarrow> Stats \<Rightarrow> call \<Rightarrow> Stats option" where
  "apply_call cv s (CallRecord eventType d) = Record cv s eventType d"
| "apply_call cv s CallReset = Reset s"

fun apply_calls :: "(f64 \<Rightarrow> 64 word) \<Rightarrow> Stats \<Rightarrow> call list \<Rightarrow> Stats option" where
  "apply_calls cv s [] = Some s"
| "apply_calls cv s (c # cs) =
     (case apply_call cv s c of None \<Rightarrow> None | Some s' \<Rightarrow> apply_calls cv s' cs)"

text \<open>
  The durations that a sequence of calls has recorded for event type \<open>t\<close> since the last
  \<^verbatim>\<open>Reset\<close>, after the durations \<open>ds\<close> recorded before it. An event of any type is
  recorded for \<^verbatim>\<open>TOTAL\<close> as well.
\<close>

fun recorded_after :: "byte \<Rightarrow> int list \<Rightarrow> call list \<Rightarrow> int list" where
  "recorded_after t ds [] = ds"
| "recorded_after t ds (CallRecord eventType d # cs) =
     recorded_after t (if eventType = t \<or> t = TOTAL then ds @ [d] else ds) cs"
| "recorded_after t ds (CallReset # cs) = recorded_after t [] cs"

definition recorded :: "byte \<Rightarrow> call list \<Rightarrow> int list" where
  "recorded t cs = recorded_after t [] cs"

subsection \<open>The percentile extractor in the words of the specification\<close>





subsection \<open>The bucket geometry in the words of the specification\<close>





subsection \<open>Invariants\<close>

text \<open>The counters of \<^verbatim>\<open>TOTAL\<close> are the sums of the counters of the other event types.\<close>

definition mirrored :: "Stats \<Rightarrow> bool" where
  "mirrored s \<longleftrightarrow>
     NEv s ! unat TOTAL = NEv s ! unat READ + NEv s ! unat WRITE + NEv s ! unat COMMIT \<and>
     (\<forall>n < n_buckets. Buckets s ! unat TOTAL ! n =
        Buckets s ! unat READ ! n + Buckets s ! unat WRITE ! n + Buckets s ! unat COMMIT ! n)"

text \<open>
  The snapshot agrees, for the event type at index \<open>u\<close>, with the list \<open>ds\<close> of the
  durations recorded for it.
\<close>

definition consistent :: "Stats \<Rightarrow> nat \<Rightarrow> int list \<Rightarrow> bool" where
  "consistent s u ds \<longleftrightarrow>
     sum_list (Buckets s ! u) = NEv s ! u \<and>
     NEv s ! u = word_of_nat (length ds) \<and>
     (\<forall>d \<in> set ds. MinT s ! u \<le> d \<and> d \<le> MaxT s ! u) \<and>
     (ds = [] \<longrightarrow> MinT s ! u = 0 \<and> MaxT s ! u = 0)"

text \<open>A call the invariants are stated for: an event type of the four, a positive duration.\<close>

fun positive_call :: "call \<Rightarrow> bool" where
  "positive_call (CallRecord eventType d) \<longleftrightarrow> eventType \<in> {READ, WRITE, COMMIT, TOTAL} \<and> 0 < d"
| "positive_call CallReset \<longleftrightarrow> True"

section \<open>Properties\<close>

subsection \<open>The bucket number and the shape of a snapshot\<close>

lemma bucket_number_le: "bucket_number cv d \<le> 449"
  by (auto simp add: bucket_number_def Let_def n_buckets_def not_less)

lemma unat_bucket_number: "unat (bucket_number cv d) < n_buckets"
  using bucket_number_le [of cv d] by (simp add: word_le_nat_alt n_buckets_def)

lemma shaped_NewStats: "shaped NewStats"
  by (simp add: shaped_def NewStats_def nEventTypes_def list_all_iff)

lemma shaped_row: "shaped s \<Longrightarrow> t < nEventTypes \<Longrightarrow> length (Buckets s ! t) = n_buckets"
  by (simp add: shaped_def list_all_length)

lemma unat_event_type:
  "eventType \<in> {READ, WRITE, COMMIT, TOTAL} \<Longrightarrow> unat eventType < nEventTypes"
  by (auto simp add: READ_def WRITE_def COMMIT_def TOTAL_def nEventTypes_def)

lemma unat_TOTAL: "unat TOTAL = 3"
  by (simp add: TOTAL_def)

lemma record_one_fields:
  assumes "record_one s t n d = Some s'"
  shows "Buckets s' = (Buckets s)[t := (Buckets s ! t)[n := Buckets s ! t ! n + 1]]"
    and "MinT s' = (MinT s)[t := (if d < MinT s ! t \<or> NEv s ! t = 0 then d else MinT s ! t)]"
    and "MaxT s' = (MaxT s)[t := (if d > MaxT s ! t then d else MaxT s ! t)]"
    and "NEv s' = (NEv s)[t := NEv s ! t + 1]"
    and "Errors s' = Errors s"
  using assms by (auto simp add: record_one_def Let_def split: if_splits)

lemma record_one_shaped:
  assumes "shaped s" "t < nEventTypes" "n < n_buckets"
  shows "\<exists>s'. record_one s t n d = Some s' \<and> shaped s'"
  using assms shaped_row [OF assms(1,2)]
  by (auto simp add: record_one_def Let_def shaped_def list_all_length nth_list_update)

lemma record_one_frame:
  assumes "record_one s t n d = Some s'" and "u \<noteq> t"
  shows "Buckets s' ! u = Buckets s ! u \<and> MinT s' ! u = MinT s ! u \<and>
         MaxT s' ! u = MaxT s ! u \<and> NEv s' ! u = NEv s ! u"
  using assms(2) by (simp add: record_one_fields [OF assms(1)])

lemma Record_shaped:
  assumes "shaped s" and "unat eventType < nEventTypes"
  shows "\<exists>s'. Record cv s eventType d = Some s' \<and> shaped s'"
proof -
  let ?n = "unat (bucket_number cv d)"
  obtain s1 where s1: "record_one s (unat eventType) ?n d = Some s1" "shaped s1"
    using record_one_shaped [OF assms unat_bucket_number] by blast
  obtain s2 where s2: "record_one s1 (unat TOTAL) ?n d = Some s2" "shaped s2"
    using record_one_shaped [of s1 "unat TOTAL" ?n d] s1(2) unat_bucket_number [of cv d]
    by (auto simp add: unat_TOTAL nEventTypes_def)
  show ?thesis
    using s1 s2 by (simp add: Record_def Let_def)
qed

lemma Record_frame:
  assumes "Record cv s eventType d = Some s'"
    and "u \<noteq> unat eventType" and "u \<noteq> unat TOTAL"
  shows "Buckets s' ! u = Buckets s ! u \<and> MinT s' ! u = MinT s ! u \<and>
         MaxT s' ! u = MaxT s ! u \<and> NEv s' ! u = NEv s ! u"
  using assms
  by (auto simp add: Record_def Let_def split: option.splits if_splits dest!: record_one_frame)

lemma Record_Errors:
  assumes "Record cv s eventType d = Some s'"
  shows "Errors s' = Errors s"
  using assms
  by (auto simp add: Record_def Let_def split: option.splits if_splits dest!: record_one_fields(5))

lemma record_one_guard:
  assumes "record_one s t n d = Some s'"
  shows "t < length (Buckets s) \<and> n < length (Buckets s ! t) \<and> t < length (MinT s) \<and>
         t < length (MaxT s) \<and> t < length (NEv s)"
  using assms by (simp add: record_one_def split: if_splits)

lemma record_one_at:
  assumes "record_one s t n d = Some s'"
  shows "NEv s' ! u = (if u = t then NEv s ! u + 1 else NEv s ! u)"
    and "Buckets s' ! u ! m = (if u = t \<and> m = n then Buckets s ! u ! m + 1 else Buckets s ! u ! m)"
    and "MinT s' ! u = (if u = t \<and> (d < MinT s ! u \<or> NEv s ! u = 0) then d else MinT s ! u)"
    and "MaxT s' ! u = (if u = t \<and> MaxT s ! u < d then d else MaxT s ! u)"
  using record_one_guard [OF assms]
  by (auto simp add: record_one_fields [OF assms] nth_list_update)


lemma Record_cases:
  assumes "Record cv s eventType d = Some s'"
  obtains (total) "eventType = TOTAL" "record_one s (unat TOTAL) (unat (bucket_number cv d)) d = Some s'"
  | (other) s1 where "eventType \<noteq> TOTAL"
      "record_one s (unat eventType) (unat (bucket_number cv d)) d = Some s1"
      "record_one s1 (unat TOTAL) (unat (bucket_number cv d)) d = Some s'"
  using assms by (auto simp add: Record_def Let_def split: option.splits if_splits)


lemma Record_at:
  assumes "Record cv s eventType d = Some s'"
  shows "NEv s' ! u = (if u = unat eventType \<or> u = unat TOTAL then NEv s ! u + 1 else NEv s ! u) \<and>
    Buckets s' ! u ! m =
      (if (u = unat eventType \<or> u = unat TOTAL) \<and> m = unat (bucket_number cv d)
       then Buckets s ! u ! m + 1 else Buckets s ! u ! m) \<and>
    MinT s' ! u =
      (if (u = unat eventType \<or> u = unat TOTAL) \<and> (d < MinT s ! u \<or> NEv s ! u = 0)
       then d else MinT s ! u) \<and>
    MaxT s' ! u =
      (if (u = unat eventType \<or> u = unat TOTAL) \<and> MaxT s ! u < d then d else MaxT s ! u)"
  using assms
proof (cases rule: Record_cases)
  case total
  show ?thesis
    using total(1) by (simp add: record_one_at [OF total(2)])
next
  case (other s1)
  have ne: "unat eventType \<noteq> unat TOTAL"
    using other(1) by (simp add: word_unat_eq_iff)
  show ?thesis
    using ne by (auto simp add: record_one_at [OF other(2)] record_one_at [OF other(3)])
qed

subsection \<open>What Record and Error leave alone\<close>

lemma Trx_Error_frame:
  "Buckets (deref (Trx_Error t n) x) = Buckets (deref t x) \<and>
   MinT (deref (Trx_Error t n) x) = MinT (deref t x) \<and>
   MaxT (deref (Trx_Error t n) x) = MaxT (deref t x) \<and>
   NEv (deref (Trx_Error t n) x) = NEv (deref t x)"
  by (cases x; cases "sp t") (simp_all add: Trx_Error_def deref_def assign_def Let_def)

lemma Trx_Error_Errors:
  "Errors (deref (Trx_Error t n) x) =
     (if x = sp t then (Errors (deref t x))(n \<mapsto> tally (Errors (deref t x)) n + 1)
      else Errors (deref t x))"
  by (cases x; cases "sp t") (simp_all add: Trx_Error_def deref_def assign_def Let_def)

text \<open>
  Claim C10. On a snapshot of the allocated shape, \<^verbatim>\<open>Record(eventType, d)\<close> returns for
  every event type and every duration, leaves \<^verbatim>\<open>Errors\<close> as it was, and leaves the
  \<^verbatim>\<open>Buckets\<close>, \<^verbatim>\<open>Min\<close>, \<^verbatim>\<open>Max\<close> and \<^verbatim>\<open>N\<close> entries of every event type other than
  \<open>eventType\<close> and \<^verbatim>\<open>TOTAL\<close> as they were; for \<open>eventType = TOTAL\<close> only the entries of
  \<^verbatim>\<open>TOTAL\<close> can change. \<^verbatim>\<open>Trx.Error(n)\<close> leaves the \<^verbatim>\<open>Buckets\<close>, \<^verbatim>\<open>Min\<close>, \<^verbatim>\<open>Max\<close> and
  \<^verbatim>\<open>N\<close> of both snapshots as they were, and the \<^verbatim>\<open>Errors\<close> of the snapshot that is not
  active.
\<close>

theorem Record_Error_frame:
  assumes "shaped s" and "eventType \<in> {READ, WRITE, COMMIT, TOTAL}"
  shows "(\<exists>s'. Record cv s eventType d = Some s' \<and> Errors s' = Errors s \<and>
           (\<forall>u \<in> {READ, WRITE, COMMIT, TOTAL}. u \<noteq> eventType \<and> u \<noteq> TOTAL \<longrightarrow>
              Buckets s' ! unat u = Buckets s ! unat u \<and> MinT s' ! unat u = MinT s ! unat u \<and>
              MaxT s' ! unat u = MaxT s ! unat u \<and> NEv s' ! unat u = NEv s ! unat u)) \<and>
         (\<forall>x. Buckets (deref (Trx_Error t n) x) = Buckets (deref t x) \<and>
              MinT (deref (Trx_Error t n) x) = MinT (deref t x) \<and>
              MaxT (deref (Trx_Error t n) x) = MaxT (deref t x) \<and>
              NEv (deref (Trx_Error t n) x) = NEv (deref t x) \<and>
              (x \<noteq> sp t \<longrightarrow> Errors (deref (Trx_Error t n) x) = Errors (deref t x)))"
proof -
  obtain s' where s': "Record cv s eventType d = Some s'"
    using Record_shaped [OF assms(1) unat_event_type [OF assms(2)]] by blast
  have "Buckets s' ! unat u = Buckets s ! unat u \<and> MinT s' ! unat u = MinT s ! unat u \<and>
        MaxT s' ! unat u = MaxT s ! unat u \<and> NEv s' ! unat u = NEv s ! unat u"
    if "u \<noteq> eventType" "u \<noteq> TOTAL" for u
    using Record_frame [OF s', of "unat u"] that by (simp add: word_unat_eq_iff)
  then show ?thesis
    using s' Record_Errors [OF s'] by (simp add: Trx_Error_frame Trx_Error_Errors)
qed

theorem Record_Error_frame_witness:
  "\<exists>s'. Record (\<lambda>x. 0) NewStats READ 10 = Some s' \<and> Errors s' = Errors NewStats \<and>
        Buckets s' ! unat WRITE = Buckets NewStats ! unat WRITE \<and>
        NEv s' ! unat COMMIT = NEv NewStats ! unat COMMIT \<and>
        NEv (deref (Trx_Error (NewTrx ''t'') 1062) SlotA) = NEv (deref (NewTrx ''t'') SlotA) \<and>
        Errors (deref (Trx_Error (NewTrx ''t'') 1062) SlotB) = Errors (deref (NewTrx ''t'') SlotB)"
  using Record_Error_frame [OF shaped_NewStats, of READ "\<lambda>x. 0" 10 "NewTrx ''t''" 1062]
  by (auto simp add: READ_def WRITE_def COMMIT_def TOTAL_def NewTrx_def)

subsection \<open>TOTAL mirrors the other event types\<close>

lemma mirrored_NewStats: "mirrored NewStats"
  by (simp add: mirrored_def NewStats_def nEventTypes_def n_buckets_def READ_def WRITE_def
      COMMIT_def TOTAL_def)

lemma Record_mirrored:
  assumes "Record cv s eventType d = Some s'" and "mirrored s"
    and "eventType \<in> {READ, WRITE, COMMIT}"
  shows "mirrored s'"
  using assms(2,3) unfolding mirrored_def
  by (auto simp add: Record_at [OF assms(1)] READ_def WRITE_def COMMIT_def TOTAL_def)

lemma Records_mirrored:
  assumes "shaped s" and "mirrored s"
    and "\<forall>(eventType, d) \<in> set evs. eventType \<in> {READ, WRITE, COMMIT}"
  shows "\<exists>s'. Records cv s evs = Some s' \<and> shaped s' \<and> mirrored s'"
  using assms
proof (induction evs arbitrary: s)
  case Nil
  then show ?case by simp
next
  case (Cons ev evs)
  obtain eventType d where ev: "ev = (eventType, d)" by (cases ev)
  have et: "eventType \<in> {READ, WRITE, COMMIT}"
    using Cons.prems(3) ev by auto
  then have "unat eventType < nEventTypes"
    by (auto simp add: READ_def WRITE_def COMMIT_def nEventTypes_def)
  then obtain s1 where s1: "Record cv s eventType d = Some s1" "shaped s1"
    using Record_shaped [OF Cons.prems(1)] by blast
  have "mirrored s1"
    using Record_mirrored [OF s1(1) Cons.prems(2) et] .
  then obtain s' where "Records cv s1 evs = Some s'" "shaped s'" "mirrored s'"
    using Cons.IH [OF s1(2)] Cons.prems(3) by auto
  then show ?case
    using s1(1) ev by simp
qed

text \<open>
  Claim C7. After any sequence of \<^verbatim>\<open>Record\<close> calls with the event types \<^verbatim>\<open>READ\<close>,
  \<^verbatim>\<open>WRITE\<close> and \<^verbatim>\<open>COMMIT\<close> on a fresh snapshot, every call has returned, \<^verbatim>\<open>N[TOTAL]\<close> is
  the sum of \<^verbatim>\<open>N\<close> over the three other types, and every bucket count of \<^verbatim>\<open>TOTAL\<close> is the
  sum of that bucket's counts over the three other types (sums of \<^verbatim>\<open>uint64\<close>).
\<close>

theorem total_mirrors_records:
  assumes "\<forall>(eventType, d) \<in> set evs. eventType \<in> {READ, WRITE, COMMIT}"
  shows "\<exists>s. Records cv NewStats evs = Some s \<and>
     NEv s ! unat TOTAL = NEv s ! unat READ + NEv s ! unat WRITE + NEv s ! unat COMMIT \<and>
     (\<forall>n < n_buckets. Buckets s ! unat TOTAL ! n =
        Buckets s ! unat READ ! n + Buckets s ! unat WRITE ! n + Buckets s ! unat COMMIT ! n)"
  using Records_mirrored [OF shaped_NewStats mirrored_NewStats assms, of cv]
  by (auto simp add: mirrored_def)

theorem total_mirrors_records_witness:
  "\<exists>s. Records (\<lambda>x. 0) NewStats [(READ, 10), (WRITE, 5)] = Some s \<and>
     NEv s ! unat TOTAL = NEv s ! unat READ + NEv s ! unat WRITE + NEv s ! unat COMMIT"
  using total_mirrors_records [of "[(READ, 10), (WRITE, 5)]" "\<lambda>x. 0"]
  by auto

subsection \<open>Reset, and the invariants of a snapshot\<close>

lemma upt_types: "[0..<nEventTypes] = [0, 1, 2, 3]"
  by (simp add: nEventTypes_def upt_rec)

lemma list4_eq:
  assumes "length xs = 4"
  shows "xs = [xs ! 0, xs ! 1, xs ! 2, xs ! 3]"
  using assms by (auto simp add: list_eq_iff_nth_eq less_Suc_eq numeral_eq_Suc)

lemma Reset_shaped:
  assumes "shaped s"
  shows "Reset s = Some (NewStats\<lparr>Errors := (\<lambda>k. case Errors s k of None \<Rightarrow> None | Some v \<Rightarrow> Some 0)\<rparr>)"
proof -
  have rows: "length (Buckets s ! 0) = n_buckets" "length (Buckets s ! 1) = n_buckets"
    "length (Buckets s ! 2) = n_buckets" "length (Buckets s ! 3) = n_buckets"
    using assms by (simp_all add: shaped_def list_all_length nEventTypes_def)
  have len: "length (Buckets s) = 4" "length (MinT s) = 4" "length (MaxT s) = 4" "length (NEv s) = 4"
    using assms by (simp_all add: shaped_def nEventTypes_def)
  show ?thesis
    using rows len
    by (simp add: Reset_def upt_types reset_type_def NewStats_def nEventTypes_def
        list_eq_iff_nth_eq nth_list_update less_Suc_eq numeral_eq_Suc nth_Cons')
qed

lemma Reset_NewStats: "Reset NewStats = Some NewStats"
  by (simp add: Reset_shaped [OF shaped_NewStats]) (simp add: NewStats_def)

lemma sum_list_incr:
  fixes xs :: "'a::comm_monoid_add list"
  shows "n < length xs \<Longrightarrow> sum_list (xs[n := xs ! n + w]) = sum_list xs + w"
proof (induction xs arbitrary: n)
  case Nil
  then show ?case by simp
next
  case (Cons x xs)
  then show ?case by (cases n) (simp_all add: ac_simps)
qed

lemma Record_row:
  assumes "Record cv s eventType d = Some s'"
  shows "Buckets s' ! u =
     (if u = unat eventType \<or> u = unat TOTAL
      then (Buckets s ! u)[unat (bucket_number cv d) := Buckets s ! u ! unat (bucket_number cv d) + 1]
      else Buckets s ! u)"
  using assms
proof (cases rule: Record_cases)
  case total
  show ?thesis
    using total(1) record_one_guard [OF total(2)]
    by (simp add: record_one_fields [OF total(2)])
next
  case (other s1)
  have ne: "unat eventType \<noteq> unat TOTAL"
    using other(1) by (simp add: word_unat_eq_iff)
  show ?thesis
    using ne record_one_guard [OF other(2)] record_one_guard [OF other(3)]
    by (auto simp add: record_one_fields [OF other(2)] record_one_fields [OF other(3)])
qed

lemma Record_row_length:
  assumes "Record cv s eventType d = Some s'" and "u = unat eventType \<or> u = unat TOTAL"
  shows "unat (bucket_number cv d) < length (Buckets s ! u)"
  using assms(1)
proof (cases rule: Record_cases)
  case total
  show ?thesis
    using total(1) assms(2) record_one_guard [OF total(2)] by auto
next
  case (other s1)
  have ne: "unat eventType \<noteq> unat TOTAL"
    using other(1) by (simp add: word_unat_eq_iff)
  show ?thesis
    using ne assms(2) record_one_guard [OF other(2)] record_one_guard [OF other(3)]
    by (auto simp add: record_one_fields [OF other(2)])
qed

lemma word_of_nat_nonzero:
  assumes "0 < n" and "n < 2 ^ 64"
  shows "(word_of_nat n :: 64 word) \<noteq> 0"
  using assms by (simp add: word_of_nat_eq_0_iff dvd_def) (metis nat_dvd_not_less dvd_def)

lemma consistent_NewStats:
  assumes "u < nEventTypes"
  shows "consistent NewStats u []"
  using assms by (simp add: consistent_def NewStats_def sum_list_replicate)

lemma consistent_Reset:
  assumes "shaped s" and "Reset s = Some s'" and "u < nEventTypes"
  shows "consistent s' u []"
  using assms(2,3) unfolding Reset_shaped [OF assms(1)]
  by (auto simp add: consistent_def NewStats_def sum_list_replicate)

lemma consistent_Record_other:
  assumes "Record cv s eventType d = Some s'" and "consistent s u ds"
    and "u \<noteq> unat eventType" and "u \<noteq> unat TOTAL"
  shows "consistent s' u ds"
  using assms(2) Record_frame [OF assms(1,3,4)] by (simp add: consistent_def)

lemma consistent_Record_same:
  assumes r: "Record cv s eventType d = Some s'" and c: "consistent s u ds"
    and u: "u = unat eventType \<or> u = unat TOTAL"
    and d: "0 < d" and len: "Suc (length ds) < 2 ^ 64"
  shows "consistent s' u (ds @ [d])"
proof -
  have at: "NEv s' ! u = NEv s ! u + 1"
    "MinT s' ! u = (if d < MinT s ! u \<or> NEv s ! u = 0 then d else MinT s ! u)"
    "MaxT s' ! u = (if MaxT s ! u < d then d else MaxT s ! u)"
    using u Record_at [OF r, of u] by auto
  have row: "Buckets s' ! u =
      (Buckets s ! u)[unat (bucket_number cv d) := Buckets s ! u ! unat (bucket_number cv d) + 1]"
    using u Record_row [OF r, of u] by auto
  have sum: "sum_list (Buckets s' ! u) = NEv s' ! u"
    using c by (simp add: row at(1) sum_list_incr [OF Record_row_length [OF r u]] consistent_def)
  have n: "NEv s' ! u = word_of_nat (length (ds @ [d]))"
    using c by (simp add: at(1) consistent_def)
  show ?thesis
  proof (cases "ds = []")
    case True
    then have "NEv s ! u = 0" "MaxT s ! u = 0"
      using c by (simp_all add: consistent_def)
    then show ?thesis
      using sum n d True by (simp add: consistent_def at(2,3))
  next
    case False
    then have "NEv s ! u \<noteq> 0"
      using c len word_of_nat_nonzero [of "length ds"] by (simp add: consistent_def)
    then show ?thesis
      using sum n c by (auto simp add: consistent_def at(2,3))
  qed
qed

lemma apply_calls_consistent:
  assumes "shaped s" and "consistent s (unat t) ds" and "list_all positive_call cs"
    and "length ds + length cs < 2 ^ 64" and t: "t \<in> {READ, WRITE, COMMIT, TOTAL}"
  shows "\<exists>s'. apply_calls cv s cs = Some s' \<and> consistent s' (unat t) (recorded_after t ds cs)"
  using assms(1-4)
proof (induction cs arbitrary: s ds)
  case Nil
  then show ?case by simp
next
  case (Cons c cs)
  show ?case
  proof (cases c)
    case (CallRecord eventType d)
    have et: "eventType \<in> {READ, WRITE, COMMIT, TOTAL}" and d: "0 < d"
      using Cons.prems(3) CallRecord by simp_all
    obtain s1 where s1: "Record cv s eventType d = Some s1" "shaped s1"
      using Record_shaped [OF Cons.prems(1) unat_event_type [OF et]] by blast
    let ?ds = "if eventType = t \<or> t = TOTAL then ds @ [d] else ds"
    have "consistent s1 (unat t) ?ds"
    proof (cases "eventType = t \<or> t = TOTAL")
      case True
      then have "unat t = unat eventType \<or> unat t = unat TOTAL" by auto
      then show ?thesis
        using consistent_Record_same [OF s1(1) Cons.prems(2) _ d] Cons.prems(4) True by simp
    next
      case False
      then have "unat t \<noteq> unat eventType" "unat t \<noteq> unat TOTAL"
        by (simp_all add: word_unat_eq_iff) 
      then show ?thesis
        using consistent_Record_other [OF s1(1) Cons.prems(2)] False by simp
    qed
    moreover have "length ?ds + length cs < 2 ^ 64"
      using Cons.prems(4) by simp
    ultimately obtain s' where
      "apply_calls cv s1 cs = Some s'" "consistent s' (unat t) (recorded_after t ?ds cs)"
      using Cons.IH [OF s1(2)] Cons.prems(3) by auto
    then show ?thesis
      using s1(1) CallRecord by simp
  next
    case CallReset
    obtain s1 where s1: "Reset s = Some s1" "shaped s1"
      using Reset_shaped [OF Cons.prems(1)]
      by (simp add: shaped_def NewStats_def list_all_iff)
    have c1: "consistent s1 (unat t) []"
      using consistent_Reset [OF Cons.prems(1) s1(1) unat_event_type [OF t]] .
    have "\<exists>s'. apply_calls cv s1 cs = Some s' \<and> consistent s' (unat t) (recorded_after t [] cs)"
      using Cons.prems(3,4) by (intro Cons.IH [OF s1(2) c1]) simp_all
    then obtain s' where
      "apply_calls cv s1 cs = Some s'" "consistent s' (unat t) (recorded_after t [] cs)"
      by blast
    then show ?thesis
      using s1(1) CallReset by simp
  qed
qed

text \<open>
  Claim C8. Take any sequence of fewer than \<open>2\<^sup>6\<^sup>4\<close> calls of \<^verbatim>\<open>Record\<close> (with one of the
  four event types and a positive duration) and \<^verbatim>\<open>Reset\<close> on a fresh snapshot. Every call
  returns, and for every event type: the sum of its bucket counts is its \<^verbatim>\<open>N\<close>; \<^verbatim>\<open>N\<close> counts
  the durations recorded for the type since the last \<^verbatim>\<open>Reset\<close>; when \<^verbatim>\<open>N\<close> is not zero,
  every such duration lies between \<^verbatim>\<open>Min\<close> and \<^verbatim>\<open>Max\<close>; when \<^verbatim>\<open>N\<close> is zero, \<^verbatim>\<open>Min\<close> and
  \<^verbatim>\<open>Max\<close> are zero. (The bound on the number of calls keeps the \<^verbatim>\<open>uint64\<close> counter \<^verbatim>\<open>N\<close>
  from wrapping to zero.)
\<close>

theorem snapshot_invariants:
  assumes "list_all positive_call cs" and "length cs < 2 ^ 64"
    and "t \<in> {READ, WRITE, COMMIT, TOTAL}"
  shows "\<exists>s. apply_calls cv NewStats cs = Some s \<and>
     sum_list (Buckets s ! unat t) = NEv s ! unat t \<and>
     NEv s ! unat t = word_of_nat (length (recorded t cs)) \<and>
     (NEv s ! unat t \<noteq> 0 \<longrightarrow>
        (\<forall>d \<in> set (recorded t cs). MinT s ! unat t \<le> d \<and> d \<le> MaxT s ! unat t)) \<and>
     (NEv s ! unat t = 0 \<longrightarrow> MinT s ! unat t = 0 \<and> MaxT s ! unat t = 0)"
proof -
  obtain s where s: "apply_calls cv NewStats cs = Some s" "consistent s (unat t) (recorded t cs)"
    using apply_calls_consistent [OF shaped_NewStats consistent_NewStats [OF unat_event_type [OF assms(3)]]
        assms(1) _ assms(3), of cv] assms(2)
    by (auto simp add: recorded_def)
  have "length (recorded_after t ds cs) \<le> length ds + length cs" for ds
    by (induction t ds cs rule: recorded_after.induct) auto
  from this [of "[]"] have "length (recorded t cs) < 2 ^ 64"
    using assms(2) by (simp add: recorded_def)
  then have "recorded t cs = []" if "NEv s ! unat t = 0"
    using that s(2) word_of_nat_nonzero [of "length (recorded t cs)"]
    by (auto simp add: consistent_def)
  then show ?thesis
    using s by (auto simp add: consistent_def)
qed

theorem snapshot_invariants_witness:
  "\<exists>s. apply_calls (\<lambda>x. 0) NewStats [CallRecord READ 10, CallReset, CallRecord WRITE 5] = Some s \<and>
     sum_list (Buckets s ! unat TOTAL) = NEv s ! unat TOTAL \<and>
     NEv s ! unat TOTAL = 1 \<and> MinT s ! unat TOTAL \<le> 5 \<and> 5 \<le> MaxT s ! unat TOTAL"
  using snapshot_invariants [of "[CallRecord READ 10, CallReset, CallRecord WRITE 5]" TOTAL "\<lambda>x. 0"]
  by (auto simp add: recorded_def)

subsection \<open>Swap\<close>

lemma deref_assign: "deref (assign t x s) y = (if y = x then s else deref t y)"
  by (cases x; cases y) (simp_all add: deref_def assign_def)

lemma sp_assign: "sp (assign t x s) = sp t" and onA_assign: "onA (assign t x s) = onA t"
  by (cases x; simp add: assign_def)+

lemma assign_assign: "assign (assign t x s) x s' = assign t x s'"
  by (cases x) (simp_all add: assign_def)

lemma assign_deref: "assign t x (deref t x) = t"
  by (cases x) (simp_all add: assign_def deref_def)

lemma Trx_Records_active:
  "Trx_Records cv t evs =
     (case Records cv (deref t (sp t)) evs of None \<Rightarrow> None | Some s' \<Rightarrow> Some (assign t (sp t) s'))"
proof (induction evs arbitrary: t)
  case Nil
  then show ?case by (simp add: assign_deref)
next
  case (Cons ev evs)
  obtain eventType d where ev: "ev = (eventType, d)" by (cases ev)
  show ?case
    by (simp add: ev Trx_Record_def Cons.IH deref_assign sp_assign assign_assign split: option.splits)
qed

lemma Records_shaped:
  assumes "shaped s" and "\<forall>(eventType, d) \<in> set evs. eventType \<in> {READ, WRITE, COMMIT, TOTAL}"
  shows "\<exists>s'. Records cv s evs = Some s' \<and> shaped s' \<and> Errors s' = Errors s \<and>
     NEv s' ! unat TOTAL = NEv s ! unat TOTAL + word_of_nat (length evs)"
  using assms
proof (induction evs arbitrary: s)
  case Nil
  then show ?case by simp
next
  case (Cons ev evs)
  obtain eventType d where ev: "ev = (eventType, d)" by (cases ev)
  have "eventType \<in> {READ, WRITE, COMMIT, TOTAL}"
    using Cons.prems(2) ev by auto
  then obtain s1 where s1: "Record cv s eventType d = Some s1" "shaped s1"
    using Record_shaped [OF Cons.prems(1) unat_event_type] by blast
  have n1: "NEv s1 ! unat TOTAL = NEv s ! unat TOTAL + 1"
    using Record_at [OF s1(1), of "unat TOTAL"] by simp
  obtain s' where "Records cv s1 evs = Some s'" "shaped s'" "Errors s' = Errors s1"
    "NEv s' ! unat TOTAL = NEv s1 ! unat TOTAL + word_of_nat (length evs)"
    using Cons.IH [OF s1(2)] Cons.prems(2) by auto
  then show ?case
    using s1(1) ev n1 Record_Errors [OF s1(1)] by simp
qed

text \<open>
  Claim C3. Single-threaded: record the events \<open>evs1\<close> into a fresh \<^verbatim>\<open>Trx\<close>, call \<^verbatim>\<open>Swap\<close>,
  record \<open>evs2\<close>, call \<^verbatim>\<open>Swap\<close> again. Every call returns. The first \<^verbatim>\<open>Swap\<close> returns the
  slot \<open>r1\<close> that was active; it holds exactly what recording \<open>evs1\<close> into a fresh
  snapshot gives, with \<^verbatim>\<open>N[TOTAL]\<close> the number of events of \<open>evs1\<close>; the slot now active is
  the other one and is all zero. Recording \<open>evs2\<close> leaves \<open>r1\<close> as it was. The second \<^verbatim>\<open>Swap\<close>
  returns the other slot \<open>r2\<close>, which holds exactly \<open>evs2\<close>; the two counts add up to the
  number of events of \<open>evs1\<close> and \<open>evs2\<close>. Only this second \<^verbatim>\<open>Swap\<close> resets \<open>r1\<close>, as it makes
  it the active slot again.
\<close>

theorem swap_handoff:
  assumes "\<forall>(eventType, d) \<in> set evs1. eventType \<in> {READ, WRITE, COMMIT, TOTAL}"
    and "\<forall>(eventType, d) \<in> set evs2. eventType \<in> {READ, WRITE, COMMIT, TOTAL}"
  shows "\<exists>t1 r1 t2 t3 r2 t4 s1 s2.
     Trx_Records cv (NewTrx name) evs1 = Some t1 \<and> sp t1 = r1 \<and> Swap t1 = Some (r1, t2) \<and>
     Records cv NewStats evs1 = Some s1 \<and> deref t2 r1 = s1 \<and>
     NEv s1 ! unat TOTAL = word_of_nat (length evs1) \<and>
     sp t2 \<noteq> r1 \<and> deref t2 (sp t2) = NewStats \<and>
     Trx_Records cv t2 evs2 = Some t3 \<and> deref t3 r1 = s1 \<and> sp t3 = r2 \<and>
     Swap t3 = Some (r2, t4) \<and>
     r2 \<noteq> r1 \<and> Records cv NewStats evs2 = Some s2 \<and> deref t4 r2 = s2 \<and>
     NEv s2 ! unat TOTAL = word_of_nat (length evs2) \<and>
     NEv s1 ! unat TOTAL + NEv s2 ! unat TOTAL = word_of_nat (length evs1 + length evs2) \<and>
     sp t4 = r1 \<and> deref t4 r1 = NewStats"
proof -
  obtain s1 where s1: "Records cv NewStats evs1 = Some s1" "shaped s1" "Errors s1 = Errors NewStats"
    "NEv s1 ! unat TOTAL = word_of_nat (length evs1)"
    using Records_shaped [OF shaped_NewStats assms(1), of cv]
    by (auto simp add: NewStats_def TOTAL_def nEventTypes_def)
  obtain s2 where s2: "Records cv NewStats evs2 = Some s2" "shaped s2" "Errors s2 = Errors NewStats"
    "NEv s2 ! unat TOTAL = word_of_nat (length evs2)"
    using Records_shaped [OF shaped_NewStats assms(2), of cv]
    by (auto simp add: NewStats_def TOTAL_def nEventTypes_def)
  define t1 where "t1 = assign (NewTrx name) SlotA s1"
  define t2 where "t2 = t1\<lparr>trx_b := NewStats, sp := SlotB, onA := False\<rparr>"
  define t3 where "t3 = assign t2 SlotB s2"
  define t4 where "t4 = t3\<lparr>trx_a := NewStats, sp := SlotA, onA := True\<rparr>"
  have r1: "Reset s1 = Some NewStats"
    using s1(3) by (simp add: Reset_shaped [OF s1(2)]) (simp add: NewStats_def)
  have 1: "Trx_Records cv (NewTrx name) evs1 = Some t1"
    by (simp add: Trx_Records_active t1_def) (simp add: NewTrx_def deref_def s1(1))
  have 2: "Swap t1 = Some (SlotA, t2)"
    by (simp add: Swap_def t1_def t2_def assign_def NewTrx_def Reset_NewStats)
  have 3: "Trx_Records cv t2 evs2 = Some t3"
    by (simp add: Trx_Records_active t3_def) (simp add: t2_def deref_def s2(1))
  have 4: "Swap t3 = Some (SlotB, t4)"
    by (simp add: Swap_def t4_def t3_def t2_def t1_def assign_def NewTrx_def r1)
  have 5: "deref t2 SlotA = s1" "sp t2 = SlotB" "deref t2 SlotB = NewStats" "deref t3 SlotA = s1"
    "deref t4 SlotB = s2" "sp t4 = SlotA" "deref t4 SlotA = NewStats" "sp t1 = SlotA" "sp t3 = SlotB"
    by (simp_all add: t4_def t3_def t2_def t1_def assign_def deref_def NewTrx_def)
  have 6: "NEv s1 ! unat TOTAL + NEv s2 ! unat TOTAL = word_of_nat (length evs1 + length evs2)"
    by (simp add: s1(4) s2(4))
  show ?thesis
    using 1 2 3 4 5 6 s1(1,4) s2(1,4) by simp
qed

theorem swap_handoff_witness:
  "\<exists>t1 r1 t2 t3 r2 t4 s1 s2.
     Trx_Records (\<lambda>x. 0) (NewTrx ''trx'') [(READ, 10)] = Some t1 \<and> sp t1 = r1 \<and>
     Swap t1 = Some (r1, t2) \<and>
     Records (\<lambda>x. 0) NewStats [(READ, 10)] = Some s1 \<and> deref t2 r1 = s1 \<and>
     NEv s1 ! unat TOTAL = 1 \<and>
     sp t2 \<noteq> r1 \<and> deref t2 (sp t2) = NewStats \<and>
     Trx_Records (\<lambda>x. 0) t2 [(WRITE, 5), (COMMIT, 10)] = Some t3 \<and> deref t3 r1 = s1 \<and>
     sp t3 = r2 \<and> Swap t3 = Some (r2, t4) \<and>
     r2 \<noteq> r1 \<and> Records (\<lambda>x. 0) NewStats [(WRITE, 5), (COMMIT, 10)] = Some s2 \<and> deref t4 r2 = s2 \<and>
     NEv s2 ! unat TOTAL = 2 \<and>
     NEv s1 ! unat TOTAL + NEv s2 ! unat TOTAL = 3 \<and>
     sp t4 = r1 \<and> deref t4 r1 = NewStats"
  using swap_handoff [of "[(READ, 10)]" "[(WRITE, 5), (COMMIT, 10)]" "\<lambda>x. 0" "''trx''"]
  by simp

subsection \<open>Copy and Combine\<close>

lemma shaped_explicit:
  assumes "shaped s"
  obtains b0 b1 b2 b3 m0 m1 m2 m3 x0 x1 x2 x3 n0 n1 n2 n3 e where
    "s = \<lparr>Buckets = [b0, b1, b2, b3], MinT = [m0, m1, m2, m3], MaxT = [x0, x1, x2, x3],
         NEv = [n0, n1, n2, n3], Errors = e\<rparr>"
    "length b0 = n_buckets" "length b1 = n_buckets" "length b2 = n_buckets" "length b3 = n_buckets"
proof -
  have len: "length (Buckets s) = 4" "length (MinT s) = 4" "length (MaxT s) = 4" "length (NEv s) = 4"
    using assms by (simp_all add: shaped_def nEventTypes_def)
  have rows: "length (Buckets s ! 0) = n_buckets" "length (Buckets s ! 1) = n_buckets"
    "length (Buckets s ! 2) = n_buckets" "length (Buckets s ! 3) = n_buckets"
    using assms by (simp_all add: shaped_def list_all_length nEventTypes_def)
  have "s = \<lparr>Buckets = [Buckets s ! 0, Buckets s ! 1, Buckets s ! 2, Buckets s ! 3],
      MinT = [MinT s ! 0, MinT s ! 1, MinT s ! 2, MinT s ! 3],
      MaxT = [MaxT s ! 0, MaxT s ! 1, MaxT s ! 2, MaxT s ! 3],
      NEv = [NEv s ! 0, NEv s ! 1, NEv s ! 2, NEv s ! 3], Errors = Errors s\<rparr>"
    using list4_eq [OF len(1)] list4_eq [OF len(2)] list4_eq [OF len(3)] list4_eq [OF len(4)]
    by (cases s) simp
  then show thesis
    using rows that by blast
qed

lemma copy_slice_same_length: "length dst = length src \<Longrightarrow> copy_slice dst src = src"
  by (simp add: copy_slice_def)

lemma Copy_shaped:
  assumes "shaped s" and "shaped c"
  shows "Copy s c = Some (c\<lparr>Errors := Errors s ++ Errors c\<rparr>)"
proof -
  obtain b0 b1 b2 b3 m0 m1 m2 m3 x0 x1 x2 x3 n0 n1 n2 n3 e where
    s: "s = \<lparr>Buckets = [b0, b1, b2, b3], MinT = [m0, m1, m2, m3], MaxT = [x0, x1, x2, x3],
         NEv = [n0, n1, n2, n3], Errors = e\<rparr>"
    and sl: "length b0 = n_buckets" "length b1 = n_buckets" "length b2 = n_buckets" "length b3 = n_buckets"
    using shaped_explicit [OF assms(1)] by metis
  obtain c0 c1 c2 c3 cm0 cm1 cm2 cm3 cx0 cx1 cx2 cx3 cn0 cn1 cn2 cn3 ce where
    c: "c = \<lparr>Buckets = [c0, c1, c2, c3], MinT = [cm0, cm1, cm2, cm3], MaxT = [cx0, cx1, cx2, cx3],
         NEv = [cn0, cn1, cn2, cn3], Errors = ce\<rparr>"
    and cl: "length c0 = n_buckets" "length c1 = n_buckets" "length c2 = n_buckets" "length c3 = n_buckets"
    using shaped_explicit [OF assms(2)] by metis
  show ?thesis
    unfolding s c
    by (simp add: Copy_def upt_types copy_type_def copy_slice_same_length sl cl)
qed

lemma n_buckets_positive: "length row = n_buckets \<Longrightarrow> row \<noteq> []"
  by (auto simp add: n_buckets_def)

lemma combine_type_Some:
  assumes "i < length (Buckets s)" and "i < length (Buckets c)"
    and "Buckets s ! i \<noteq> []" and "length (Buckets s ! i) \<le> length (Buckets c ! i)"
    and "i < length (MinT s)" and "i < length (MinT c)" and "i < length (MaxT s)"
    and "i < length (MaxT c)" and "i < length (NEv s)" and "i < length (NEv c)"
  shows "combine_type c s i = Some (s\<lparr>
     Buckets := (Buckets s)[i := map2 (+) (Buckets s ! i) (Buckets c ! i)],
     MinT := (MinT s)[i := (if MinT c ! i < MinT s ! i \<or> NEv s ! i = 0 then MinT c ! i else MinT s ! i)],
     MaxT := (MaxT s)[i := (if MaxT s ! i < MaxT c ! i then MaxT c ! i else MaxT s ! i)],
     NEv := (NEv s)[i := NEv s ! i + NEv c ! i]\<rparr>)"
  using assms by (simp add: combine_type_def combine_row_def Let_def)

lemma Combine_shaped:
  assumes "shaped s" and "shaped c"
  shows "Combine s c = Some \<lparr>
     Buckets = map (\<lambda>u. map2 (+) (Buckets s ! u) (Buckets c ! u)) [0, 1, 2, 3],
     MinT = map (\<lambda>u. if MinT c ! u < MinT s ! u \<or> NEv s ! u = 0 then MinT c ! u else MinT s ! u) [0, 1, 2, 3],
     MaxT = map (\<lambda>u. if MaxT s ! u < MaxT c ! u then MaxT c ! u else MaxT s ! u) [0, 1, 2, 3],
     NEv = map (\<lambda>u. NEv s ! u + NEv c ! u) [0, 1, 2, 3],
     Errors = (\<lambda>k. case Errors c k of None \<Rightarrow> Errors s k | Some v \<Rightarrow> Some (tally (Errors s) k + v)) \<rparr>"
proof -
  obtain b0 b1 b2 b3 m0 m1 m2 m3 x0 x1 x2 x3 n0 n1 n2 n3 e where
    s: "s = \<lparr>Buckets = [b0, b1, b2, b3], MinT = [m0, m1, m2, m3], MaxT = [x0, x1, x2, x3],
         NEv = [n0, n1, n2, n3], Errors = e\<rparr>"
    and sl: "length b0 = n_buckets" "length b1 = n_buckets" "length b2 = n_buckets" "length b3 = n_buckets"
    using shaped_explicit [OF assms(1)] by metis
  obtain c0 c1 c2 c3 cm0 cm1 cm2 cm3 cx0 cx1 cx2 cx3 cn0 cn1 cn2 cn3 ce where
    c: "c = \<lparr>Buckets = [c0, c1, c2, c3], MinT = [cm0, cm1, cm2, cm3], MaxT = [cx0, cx1, cx2, cx3],
         NEv = [cn0, cn1, cn2, cn3], Errors = ce\<rparr>"
    and cl: "length c0 = n_buckets" "length c1 = n_buckets" "length c2 = n_buckets" "length c3 = n_buckets"
    using shaped_explicit [OF assms(2)] by metis
  note ne = sl [THEN n_buckets_positive]
  show ?thesis
    unfolding s c
    by (simp add: Combine_def upt_types combine_type_Some sl cl ne cong: option.case_cong)
qed

lemma map2_add_zeros:
  fixes row :: "64 word list"
  shows "length row = n \<Longrightarrow> map2 (+) (replicate n 0) row = row"
  by (induction row arbitrary: n) auto

lemma map2_add_zeros_right:
  fixes row :: "64 word list"
  shows "length row = n \<Longrightarrow> map2 (+) row (replicate n 0) = row"
  by (induction row arbitrary: n) auto

lemma Combine_after_Reset:
  assumes "shaped s" and "shaped x" and "list_all (\<lambda>m. 0 \<le> m) (MaxT x)"
  shows "\<exists>s1 s2. Reset s = Some s1 \<and> Combine s1 x = Some s2 \<and>
     Buckets s2 = Buckets x \<and> MinT s2 = MinT x \<and> MaxT s2 = MaxT x \<and> NEv s2 = NEv x \<and>
     (\<forall>k. tally (Errors s2) k = tally (Errors x) k)"
proof -
  let ?s1 = "NewStats\<lparr>Errors := (\<lambda>k. case Errors s k of None \<Rightarrow> None | Some v \<Rightarrow> Some 0)\<rparr>"
  have sh1: "shaped ?s1"
    using shaped_NewStats by (simp add: shaped_def)
  obtain c0 c1 c2 c3 cm0 cm1 cm2 cm3 cx0 cx1 cx2 cx3 cn0 cn1 cn2 cn3 ce where
    x: "x = \<lparr>Buckets = [c0, c1, c2, c3], MinT = [cm0, cm1, cm2, cm3], MaxT = [cx0, cx1, cx2, cx3],
         NEv = [cn0, cn1, cn2, cn3], Errors = ce\<rparr>"
    and xl: "length c0 = n_buckets" "length c1 = n_buckets" "length c2 = n_buckets" "length c3 = n_buckets"
    using shaped_explicit [OF assms(2)] by metis
  have mx: "0 \<le> cx0" "0 \<le> cx1" "0 \<le> cx2" "0 \<le> cx3"
    using assms(3) by (simp_all add: x)
  have r: "Reset s = Some ?s1"
    by (rule Reset_shaped [OF assms(1)])
  note c = Combine_shaped [OF sh1 assms(2)]
  have t: "tally (\<lambda>k. case Errors x k of None \<Rightarrow> Errors ?s1 k | Some v \<Rightarrow> Some (tally (Errors ?s1) k + v)) k
        = tally (Errors x) k" for k
    by (simp add: tally_def split: option.splits)
  obtain s2 where s2: "Combine ?s1 x = Some s2" "Buckets s2 = Buckets x" "MinT s2 = MinT x"
    "MaxT s2 = MaxT x" "NEv s2 = NEv x" "\<forall>k. tally (Errors s2) k = tally (Errors x) k"
    using mx t unfolding c
    by (simp add: x xl NewStats_def nEventTypes_def map2_add_zeros not_less [symmetric]
        cong: option.case_cong)
  show ?thesis
    using r s2 by blast
qed

text \<open>
  Claim C4. \<^verbatim>\<open>Combine\<close> adds the counts and takes the larger \<^verbatim>\<open>Max\<close> (lemma
  \<open>Combine_shaped\<close>), and \<^verbatim>\<open>Reset\<close> followed by \<^verbatim>\<open>Combine(X)\<close> gives the values of \<open>X\<close> (lemma
  \<open>Combine_after_Reset\<close>). But combining with an all-zero snapshot does not leave the
  receiver unchanged: \<^verbatim>\<open>Combine\<close> takes \<^verbatim>\<open>c.Min\<close> whenever it is smaller, also when \<^verbatim>\<open>c\<close> holds
  no event and its \<^verbatim>\<open>Min\<close> is the initial zero. After \<^verbatim>\<open>Record(READ, 10)\<close> on a fresh snapshot
  \<^verbatim>\<open>N[READ]\<close> is 1 and \<^verbatim>\<open>Min[READ]\<close> is 10; \<^verbatim>\<open>Combine\<close> with a fresh snapshot returns and
  leaves \<^verbatim>\<open>Min[READ] = 0\<close>.
\<close>

theorem Combine_empty_lowers_Min:
  "\<exists>s s'. Record cv NewStats READ 10 = Some s \<and> NEv s ! unat READ = 1 \<and> MinT s ! unat READ = 10 \<and>
     Combine s NewStats = Some s' \<and> MinT s' ! unat READ = 0 \<and> s' \<noteq> s"
proof -
  obtain s where s: "Record cv NewStats READ 10 = Some s" "shaped s"
    using Record_shaped [OF shaped_NewStats, of READ cv 10]
    by (auto simp add: READ_def nEventTypes_def)
  have f: "NEv s ! unat READ = 1" "MinT s ! unat READ = 10"
    using Record_at [OF s(1), of "unat READ"]
    by (simp_all add: NewStats_def READ_def nEventTypes_def)
  obtain s' where s': "Combine s NewStats = Some s'" "MinT s' ! unat READ = 0"
    using f by (simp add: Combine_shaped [OF s(2) shaped_NewStats] READ_def)
      (simp add: NewStats_def nEventTypes_def)
  then have "s' \<noteq> s"
    using f(2) by auto
  then show ?thesis
    using s(1) f s' by blast
qed

text \<open>
  Claim C5. \<^verbatim>\<open>Copy\<close> overwrites the buckets, \<^verbatim>\<open>Min\<close>, \<^verbatim>\<open>Max\<close> and \<^verbatim>\<open>N\<close>, and stores every
  entry of \<^verbatim>\<open>c.Errors\<close> (lemma \<open>Copy_shaped\<close>); it removes no entry of \<^verbatim>\<open>s.Errors\<close>. After
  \<^verbatim>\<open>Error(1062)\<close> on a fresh \<^verbatim>\<open>Trx\<close> the active snapshot counts one error 1062; \<^verbatim>\<open>Copy\<close> from
  a fresh snapshot returns and the entry is still there, so the receiver is not equal to
  the snapshot it copied.
\<close>

theorem Copy_keeps_stale_errors:
  "\<exists>s'. Copy (deref (Trx_Error (NewTrx name) 1062) SlotA) NewStats = Some s' \<and>
     Errors s' 1062 = Some 1 \<and> Errors NewStats 1062 = None \<and> s' \<noteq> NewStats"
proof -
  let ?s = "deref (Trx_Error (NewTrx name) 1062) SlotA"
  have sh: "shaped ?s"
    using shaped_NewStats
    by (simp add: Trx_Error_def NewTrx_def deref_def assign_def Let_def shaped_def)
  have e: "Errors ?s 1062 = Some 1"
    by (simp add: Trx_Error_def NewTrx_def deref_def assign_def Let_def tally_def NewStats_def)
  have n: "Errors NewStats 1062 = None"
    by (simp add: NewStats_def)
  have "Errors (NewStats\<lparr>Errors := Errors ?s ++ Errors NewStats\<rparr>) 1062 = Some 1"
    using e n by (simp add: map_add_def)
  moreover from this have "NewStats\<lparr>Errors := Errors ?s ++ Errors NewStats\<rparr> \<noteq> NewStats"
    using n by (metis option.distinct(1))
  ultimately show ?thesis
    using n by (simp add: Copy_shaped [OF sh shaped_NewStats])
qed

subsection \<open>ParsePercentiles\<close>

text \<open>
  What the Go library does at the tokens of the examples is a hypothesis of each lemma:
  \<^verbatim>\<open>strings.TrimSpace\<close> returns a string without surrounding space as it is, and
  \<^verbatim>\<open>strconv.ParseFloat\<close> returns the number a decimal literal writes, an error for \<^verbatim>\<open>"abc"\<close>,
  and the special value for \<^verbatim>\<open>"NaN"\<close> (it recognizes \<^verbatim>\<open>"NaN"\<close>, \<^verbatim>\<open>"Inf"\<close> and \<^verbatim>\<open>"Infinity"\<close>,
  ignoring case).
\<close>

lemma ParsePercentiles_blank:
  "trim pCSV = [] \<Longrightarrow> ParsePercentiles trim pf dn dp pCSV = Inr (dn, dp)"
  by (simp add: ParsePercentiles_def)

lemma ParsePercentiles_example:
  assumes "trim ''95,99,99.9'' \<noteq> []"
    and "trim ''95'' = ''95''" and "trim ''99'' = ''99''" and "trim ''99.9'' = ''99.9''"
    and "pf ''95'' = Inr (Fin 95)" and "pf ''99'' = Inr (Fin 99)" and "pf ''99.9'' = Inr (Fin 99.9)"
  shows "ParsePercentiles trim pf dn dp ''95,99,99.9'' =
     Inr ([''P95'', ''P99'', ''P99.9''], [Fin 95, Fin 99, Fin 99.9])"
  using assms by (simp add: ParsePercentiles_def Let_def TrimLeft_def)

lemma ParsePercentiles_invalid:
  assumes "trim ''abc'' = ''abc''" and "pf ''abc'' = Inl err"
  shows "ParsePercentiles trim pf dn dp ''abc'' = Inl (InvalidPercentile ''abc'' err)"
  using assms by (simp add: ParsePercentiles_def Let_def TrimLeft_def)

lemma ParsePercentiles_out_of_range:
  assumes "trim ''105'' = ''105''" and "pf ''105'' = Inr (Fin 105)"
  shows "ParsePercentiles trim pf dn dp ''105'' = Inl (OutOfRange ''105'' (Fin 105))"
  using assms by (simp add: ParsePercentiles_def Let_def TrimLeft_def)

lemma in_range_cases:
  "\<not> (fless f (Fin 0.0) \<or> fless (Fin 100.0) f) \<longleftrightarrow> f = NaN \<or> (\<exists>r. f = Fin r \<and> 0 \<le> r \<and> r \<le> 100)"
  by (cases f) auto

lemma parse_all_fractions:
  assumes "parse_all trim pf toks s p = Inr (s', p')"
    and "\<forall>f \<in> set p. f = NaN \<or> (\<exists>r. f = Fin r \<and> 0 \<le> r \<and> r \<le> 100)"
  shows "\<forall>f \<in> set p'. f = NaN \<or> (\<exists>r. f = Fin r \<and> 0 \<le> r \<and> r \<le> 100)"
  using assms
proof (induction toks arbitrary: s p)
  case Nil
  then show ?case by simp
next
  case (Cons raw rest)
  let ?pStr = "TrimLeft (trim raw) ''Pp''"
  from Cons.prems(1) obtain f where f: "pf ?pStr = Inr f"
    "\<not> (fless f (Fin 0.0) \<or> fless (Fin 100.0) f)"
    "parse_all trim pf rest (s @ [''P'' @ ?pStr]) (p @ [f]) = Inr (s', p')"
    by (auto simp add: Let_def split: sum.splits if_splits)
  show ?case
    using Cons.IH [OF f(3)] Cons.prems(2) f(2) [unfolded in_range_cases] by auto
qed

text \<open>
  Claim C6. The examples of the claim hold (lemmas \<open>ParsePercentiles_example\<close>,
  \<open>ParsePercentiles_blank\<close>, \<open>ParsePercentiles_invalid\<close>, \<open>ParsePercentiles_out_of_range\<close>). But
  a parsed value outside \<open>[0, 100]\<close> is not always refused: the test
  \<^verbatim>\<open>f < 0.0 || f > 100.0\<close> is false for a NaN, so the token \<^verbatim>\<open>"NaN"\<close>, which
  \<^verbatim>\<open>strconv.ParseFloat\<close> parses without error, is returned as the percentile \<^verbatim>\<open>"PNaN"\<close> with
  the fraction NaN and no error.
\<close>

theorem ParsePercentiles_NaN:
  assumes "trim ''NaN'' = ''NaN''" and "pf ''NaN'' = Inr NaN"
  shows "ParsePercentiles trim pf dn dp ''NaN'' = Inr ([''PNaN''], [NaN])"
  using assms by (simp add: ParsePercentiles_def Let_def TrimLeft_def)

theorem ParsePercentiles_NaN_witness:
  "ParsePercentiles (\<lambda>s. s) (\<lambda>s. Inr NaN) [] [] ''NaN'' = Inr ([''PNaN''], [NaN])"
  using ParsePercentiles_NaN [of "\<lambda>s. s" "\<lambda>s. Inr NaN"] by simp

subsection \<open>Percentiles: the loop and the specification\<close>









subsection \<open>Percentiles on a snapshot that holds one event\<close>













subsection \<open>The bucket index\<close>


































subsection \<open>The order of the values that Percentiles returns\<close>






















end
